theory Spec2Isabelle
  imports Complex_Main
begin

section \<open>Text\<close>

text \<open>
  A JavaScript string is a sequence of UTF-16 code units; \<open>length\<close>, \<open>substring\<close> and the
  regular expressions of the sources (none has the \<open>u\<close> flag) all work on code units.
  A text is modelled as a \<^typ>\<open>string\<close>: each \<^typ>\<open>char\<close> stands for the code unit of the
  same number, so the model covers the texts whose code units are below 256.
  The chunker never inspects a code unit and is modelled over lists of any element type.
\<close>

text \<open>
  The class \<open>\s\<close> of a JavaScript regular expression, which is also what \<open>trim\<close> strips:
  tab, line feed, vertical tab, form feed, carriage return, space and the no-break space
  (its other members lie above 255).
\<close>

definition isWhiteSpace :: "char \<Rightarrow> bool" where
  "isWhiteSpace c \<longleftrightarrow>
     c = CHR 0x09 \<or> c = CHR 0x0A \<or> c = CHR 0x0B \<or> c = CHR 0x0C \<or> c = CHR 0x0D \<or>
     c = CHR 0x20 \<or> c = CHR 0xA0"

text \<open>The class \<open>\d\<close>: the ten ASCII digits.\<close>

definition isDigit :: "char \<Rightarrow> bool" where
  "isDigit c \<longleftrightarrow> c \<in> set ''0123456789''"

text \<open>
  \<open>String.prototype.toLowerCase\<close> on code units below 256: the ASCII capitals and the
  Latin-1 capitals (0xC0 to 0xDE without the multiplication sign 0xD7) move up by 32.
\<close>

definition toLowerCaseChar :: "char \<Rightarrow> char" where
  "toLowerCaseChar c =
     (let n = (of_char c :: nat)
      in if (65 \<le> n \<and> n \<le> 90) \<or> (192 \<le> n \<and> n \<le> 222 \<and> n \<noteq> 215)
         then char_of (n + 32) else c)"

definition toLowerCase :: "string \<Rightarrow> string" where
  "toLowerCase s = map toLowerCaseChar s"

text \<open>
  \<open>String.prototype.substring(start, end)\<close>: both arguments are clamped to
  \<open>[0, length]\<close> and swapped when the first exceeds the second.
\<close>

definition substring :: "'a list \<Rightarrow> int \<Rightarrow> int \<Rightarrow> 'a list" where
  "substring s start stop =
     (let len = int (length s);
          finalStart = min (max start 0) len;
          finalEnd = min (max stop 0) len;
          lo = min finalStart finalEnd;
          hi = max finalStart finalEnd
      in take (nat (hi - lo)) (drop (nat lo) s))"

text \<open>\<open>name.split('.')\<close>: the segments between the dots; never an empty array.\<close>

fun splitDot :: "string \<Rightarrow> string list" where
  "splitDot [] = [[]]"
| "splitDot (c # cs) =
     (if c = CHR ''.'' then [] # splitDot cs
      else (case splitDot cs of [] \<Rightarrow> [[c]] | seg # segs \<Rightarrow> (c # seg) # segs))"

text \<open>\<open>Array.prototype.pop\<close>, as far as its value goes: the last element, or \<open>undefined\<close>.\<close>

definition pop :: "'a list \<Rightarrow> 'a option" where
  "pop xs = (if xs = [] then None else Some (last xs))"

text \<open>\<open>Array.prototype.join(' ')\<close>.\<close>

fun joinSpace :: "string list \<Rightarrow> string" where
  "joinSpace [] = []"
| "joinSpace [x] = x"
| "joinSpace (x # y # xs) = x @ '' '' @ joinSpace (y # xs)"

section \<open>documentProcessor.ts\<close>

subsection \<open>cleanText\<close>

lemma length_dropWhile_less_Suc: "length (dropWhile P xs) < Suc (length xs)"
  using length_dropWhile_le [of P xs] by simp

text \<open>
  \<open>.replace(/\n{2,}/g, '\n')\<close>: from left to right, every run of two or more line feeds
  becomes one line feed.
\<close>

function replaceNewlines :: "string \<Rightarrow> string" where
  "replaceNewlines [] = []"
| "replaceNewlines [c] = [c]"
| "replaceNewlines (a # b # cs) =
     (if a = CHR 0x0A \<and> b = CHR 0x0A
      then CHR 0x0A # replaceNewlines (dropWhile (\<lambda>c. c = CHR 0x0A) cs)
      else a # replaceNewlines (b # cs))"
  by pat_completeness auto
termination
  by (relation "measure length") (auto intro: less_SucI length_dropWhile_less_Suc)

text \<open>\<open>.replace(/\s+/g, ' ')\<close>: every maximal run of white space becomes one space.\<close>

function replaceWhitespace :: "string \<Rightarrow> string" where
  "replaceWhitespace [] = []"
| "replaceWhitespace (c # cs) =
     (if isWhiteSpace c
      then CHR '' '' # replaceWhitespace (dropWhile isWhiteSpace cs)
      else c # replaceWhitespace cs)"
  by pat_completeness auto
termination
  by (relation "measure length") (auto intro: length_dropWhile_less_Suc)

text \<open>
  A match of \<open>/Page\s+\d+/i\<close> at the start of \<open>s\<close>: the four letters in either case, one
  or more white space characters, one or more digits, both runs greedy. Digits and white
  space are disjoint, so there is nothing to backtrack into. The result is the text after
  the match.
\<close>

definition matchPageNumber :: "string \<Rightarrow> string option" where
  "matchPageNumber s =
     (case s of
        p # a # g # e # r \<Rightarrow>
          if (p = CHR ''P'' \<or> p = CHR ''p'') \<and> (a = CHR ''A'' \<or> a = CHR ''a'') \<and>
             (g = CHR ''G'' \<or> g = CHR ''g'') \<and> (e = CHR ''E'' \<or> e = CHR ''e'') \<and>
             r \<noteq> [] \<and> isWhiteSpace (hd r)
          then (let d = dropWhile isWhiteSpace r
                in if d \<noteq> [] \<and> isDigit (hd d) then Some (dropWhile isDigit d) else None)
          else None
      | _ \<Rightarrow> None)"

lemma matchPageNumber_shorter: "matchPageNumber s = Some r \<Longrightarrow> length r < length s"
proof -
  assume m: "matchPageNumber s = Some r"
  then obtain p a g e u where s: "s = p # a # g # e # u"
    unfolding matchPageNumber_def by (auto split: list.splits)
  from m s have "r = dropWhile isDigit (dropWhile isWhiteSpace u)"
    unfolding matchPageNumber_def by (auto simp: Let_def split: if_splits)
  moreover have "length (dropWhile isDigit (dropWhile isWhiteSpace u)) \<le> length u"
    using length_dropWhile_le [of isDigit "dropWhile isWhiteSpace u"]
          length_dropWhile_le [of isWhiteSpace u] by linarith
  ultimately show ?thesis using s by simp
qed

text \<open>
  \<open>.replace(/Page\s+\d+/gi, '')\<close>: scanning from the left, a match is dropped and the scan
  goes on after it; where there is no match the character is kept.
\<close>

function removePageNumbers :: "string \<Rightarrow> string" where
  "removePageNumbers [] = []"
| "removePageNumbers (c # cs) =
     (case matchPageNumber (c # cs) of
        Some rest \<Rightarrow> removePageNumbers rest
      | None \<Rightarrow> c # removePageNumbers cs)"
  by pat_completeness auto
termination
  by (relation "measure length") (auto dest: matchPageNumber_shorter)

text \<open>\<open>.trim()\<close>: white space is stripped from both ends.\<close>

definition trim :: "string \<Rightarrow> string" where
  "trim s = rev (dropWhile isWhiteSpace (rev (dropWhile isWhiteSpace s)))"

definition cleanText :: "string \<Rightarrow> string" where
  "cleanText text =
     trim (removePageNumbers (replaceWhitespace (replaceNewlines text)))"

subsection \<open>extractTextFromFile\<close>

text \<open>A thrown \<open>Error\<close> (a rejected promise) with its message.\<close>

datatype error = Error string

text \<open>The browser's \<open>File\<close>: \<open>name\<close>, \<open>type\<close>, \<open>size\<close> and the bytes behind it.\<close>

record File =
  fileName :: string
  fileType :: string
  fileSize :: nat
  fileBytes :: "nat list"

text \<open>
  The decoding libraries are outside the repository and are parameters of the model:
  \<open>pdfjsLib\<close> gives, page by page, the \<open>str\<close> of each text item, \<open>mammoth.extractRawText\<close>
  gives the raw text (\<open>result.value\<close>), and the \<open>FileReader\<close> the text of the file. Each may
  fail instead.
\<close>

record libs =
  pdfPages :: "nat list \<Rightarrow> error + string list list"
  mammothRawText :: "nat list \<Rightarrow> error + string"
  readAsText :: "nat list \<Rightarrow> error + string"

definition extractTextFromPDF :: "libs \<Rightarrow> File \<Rightarrow> error + string" where
  "extractTextFromPDF l f =
     (case pdfPages l (fileBytes f) of
        Inl e \<Rightarrow> Inl e
      | Inr pages \<Rightarrow>
          Inr (cleanText (foldl (\<lambda>fullText items. fullText @ joinSpace items @ [CHR 0x0A]) [] pages)))"

definition extractTextFromDocx :: "libs \<Rightarrow> File \<Rightarrow> error + string" where
  "extractTextFromDocx l f =
     (case mammothRawText l (fileBytes f) of
        Inl e \<Rightarrow> Inl e
      | Inr v \<Rightarrow> Inr (cleanText v))"

definition extractTextFromTxt :: "libs \<Rightarrow> File \<Rightarrow> error + string" where
  "extractTextFromTxt l f =
     (case readAsText l (fileBytes f) of
        Inl e \<Rightarrow> Inl e
      | Inr v \<Rightarrow> Inr (cleanText v))"

text \<open>\<open>file.name.split('.').pop()?.toLowerCase()\<close>; \<open>None\<close> is \<open>undefined\<close>.\<close>

definition fileExtension :: "string \<Rightarrow> string option" where
  "fileExtension name = map_option toLowerCase (pop (splitDot name))"

definition extractTextFromFile :: "libs \<Rightarrow> File \<Rightarrow> error + string" where
  "extractTextFromFile l f =
     (case fileExtension (fileName f) of
        None \<Rightarrow> Inl (Error ''Unsupported file type: undefined'')
      | Some extension \<Rightarrow>
          if extension = ''pdf'' then extractTextFromPDF l f
          else if extension = ''docx'' then extractTextFromDocx l f
          else if extension = ''txt'' then extractTextFromTxt l f
          else Inl (Error (''Unsupported file type: '' @ extension)))"

subsection \<open>chunkText\<close>

text \<open>
  The \<open>while\<close> loop with its two variables, over an array that can grow without bound;
  \<open>None\<close> is the loop that does not return. The numbers are JavaScript numbers in the
  source and integers here.
\<close>

partial_function (option) chunkLoop ::
  "'a list \<Rightarrow> int \<Rightarrow> int \<Rightarrow> int \<Rightarrow> 'a list list \<Rightarrow> 'a list list option" where
  "chunkLoop text csize overlap index chunks =
     (if index < int (length text)
      then chunkLoop text csize overlap (index + (csize - overlap))
             (chunks @ [substring text index (index + csize)])
      else Some chunks)"

declare chunkLoop.simps [code]

definition chunkText :: "'a list \<Rightarrow> int \<Rightarrow> int \<Rightarrow> 'a list list option" where
  "chunkText text csize overlap = chunkLoop text csize overlap 0 []"

text \<open>The call \<open>chunkText(text)\<close> with the default parameters of the signature.\<close>

definition chunkTextDefault :: "'a list \<Rightarrow> 'a list list option" where
  "chunkTextDefault text = chunkText text 2000 200"

text \<open>
  The same loop over a JavaScript array as it is: the length of an array is limited
  (by the language to \<open>2^32 - 1\<close>, by an engine possibly to less), and \<open>chunks.push\<close> on
  an array that has reached the limit throws \<open>RangeError\<close>. The limit is a parameter. Every
  iteration pushes one chunk, so this loop always ends.
\<close>

datatype arrayError = RangeError

definition maxArrayLength :: nat where
  "maxArrayLength = 4294967295"

function chunkLoopLimited ::
  "nat \<Rightarrow> 'a list \<Rightarrow> int \<Rightarrow> int \<Rightarrow> int \<Rightarrow> 'a list list \<Rightarrow> arrayError + 'a list list" where
  "chunkLoopLimited limit text csize overlap index chunks =
     (if index < int (length text)
      then (if length chunks < limit
            then chunkLoopLimited limit text csize overlap (index + (csize - overlap))
                   (chunks @ [substring text index (index + csize)])
            else Inl RangeError)
      else Inr chunks)"
  by pat_completeness auto
termination
  by (relation "measure (\<lambda>(limit, text, csize, overlap, index, chunks). limit - length chunks)")
     auto

declare chunkLoopLimited.simps [simp del]

definition chunkTextLimited ::
  "nat \<Rightarrow> 'a list \<Rightarrow> int \<Rightarrow> int \<Rightarrow> arrayError + 'a list list" where
  "chunkTextLimited limit text csize overlap = chunkLoopLimited limit text csize overlap 0 []"

section \<open>types.ts\<close>

datatype MessageRole = USER | ASSISTANT | SYSTEM

datatype UserRole = ADMIN | USER_ROLE

datatype ViewType = Login | Chat | AdminDashboard | AdminReports

record User =
  userId :: string
  userEmail :: string
  userRole :: UserRole
  userName :: string

record ChatMessage =
  msgId :: string
  msgRole :: MessageRole
  msgContent :: string
  msgTimestamp :: nat
  msgSources :: "string list option"

record DocumentInfo =
  docId :: string
  docName :: string
  docType :: string
  content :: string
  docSize :: nat
  uploadDate :: nat
  chunkCount :: nat

text \<open>
  \<open>AppState\<close>, together with the component's separate \<open>error\<close> state (\<open>setError\<close>).
\<close>

record AppState =
  user :: "User option"
  currentView :: ViewType
  messages :: "ChatMessage list"
  documents :: "DocumentInfo list"
  isProcessing :: bool
  activeDocumentId :: "string option"
  errorMessage :: "string option"

section \<open>App.tsx: handleFileUpload\<close>

text \<open>
  What the handler takes from outside: the decoding libraries, the document store
  \<open>docDB.saveDocument\<close> (of \<open>db.ts\<close>, treated as a call that succeeds or fails), the
  identifier drawn from \<open>Math.random\<close> and the clock \<open>Date.now\<close>.
\<close>

record env =
  envLibs :: libs
  saveDocument :: "DocumentInfo \<Rightarrow> error + unit"
  randomId :: string
  now :: nat

text \<open>The object literal \<open>newDoc\<close>.\<close>

definition newDoc :: "env \<Rightarrow> File \<Rightarrow> string \<Rightarrow> string list \<Rightarrow> DocumentInfo" where
  "newDoc e f text chunks =
     \<lparr> docId = randomId e,
       docName = fileName f,
       docType = (if fileType f = [] then ''text/plain'' else fileType f),
       content = text,
       docSize = fileSize f,
       uploadDate = now e,
       chunkCount = length chunks \<rparr>"

text \<open>The \<open>catch\<close> branch: \<open>setError(err.message || "Ingestion error.")\<close>.\<close>

definition uploadFailed :: "error \<Rightarrow> AppState \<Rightarrow> AppState" where
  "uploadFailed err st =
     (case err of Error msg \<Rightarrow>
        st \<lparr> errorMessage := Some (if msg = [] then ''Ingestion error.'' else msg),
             isProcessing := False \<rparr>)"

text \<open>
  The handler on the selected files and the current state; \<open>None\<close> is the handler that
  does not return. It returns the new state and the record it has handed to the store,
  if any.
\<close>

definition handleFileUpload ::
  "env \<Rightarrow> File list \<Rightarrow> AppState \<Rightarrow> (AppState \<times> DocumentInfo option) option" where
  "handleFileUpload e files st =
     (if files = [] then Some (st, None)
      else
        let st1 = st \<lparr> isProcessing := True \<rparr>;
            f = hd files
        in case extractTextFromFile (envLibs e) f of
             Inl err \<Rightarrow> Some (uploadFailed err st1, None)
           | Inr text \<Rightarrow>
               (case chunkTextDefault text of
                  None \<Rightarrow> None
                | Some chunks \<Rightarrow>
                    let d = newDoc e f text chunks
                    in case saveDocument e d of
                         Inl err \<Rightarrow> Some (uploadFailed err st1, Some d)
                       | Inr _ \<Rightarrow>
                           Some (st1 \<lparr> documents := documents st1 @ [d],
                                       activeDocumentId := Some (docId d),
                                       isProcessing := False \<rparr>, Some d)))"

section \<open>llmService.ts: generateResponse\<close>

text \<open>The argument of \<open>ai.models.generateContent\<close>.\<close>

record Content =
  role :: string
  parts :: "string list"

record GenerateContentRequest =
  reqModel :: string
  reqContents :: "Content list"
  reqSystemInstruction :: string
  reqTemperature :: int

definition SCOUT_MODEL_ID :: string where
  "SCOUT_MODEL_ID = ''gemini-3-flash-preview''"

definition fallback :: string where
  "fallback = ''A-Mesob Assistances: I'' @ [CHR 0x27] @ ''m sorry, I don'' @ [CHR 0x27] @
     ''t know based on the provided documents.''"

text \<open>
  The bullet U+2022 of the instruction text is above 255; it is written as its three
  UTF-8 bytes.
\<close>

definition bullet :: string where
  "bullet = [CHR 0xE2, CHR 0x80, CHR 0xA2]"

text \<open>The template literal \<open>systemInstruction\<close>; its only interpolation is \<open>fallback\<close>.\<close>

definition systemInstruction :: string where
  "systemInstruction =
     ''\<newline>You are the A-Mesob Scout Engine, a document intelligence specialist. \<newline>'' @
     ''Answer using ONLY the provided '' @ [CHR 0x22] @ ''Document Context'' @ [CHR 0x22] @ ''.\<newline>'' @
     ''\<newline>LOGICAL RULES:\<newline>'' @
     ''1. SEARCH: Thoroughly scan the Context.\<newline>'' @
     ''2. NOT FOUND: If missing, respond ONLY with: '' @ [CHR 0x22] @ fallback @ [CHR 0x22] @ ''\<newline>'' @
     ''3. FORMATTING: Use bullet points ('' @ bullet @ ''). NO bolding (**) or italics (*).\<newline>''"

text \<open>The local \<open>trimmedContext\<close>.\<close>

definition trimmedContext :: "string \<Rightarrow> string" where
  "trimmedContext ctx =
     (if length ctx > 800000
      then substring ctx 0 800000 @ ''...[Content truncated]''
      else ctx)"

text \<open>
  \<open>generateResponse\<close> up to the call of the remote model: the request it sends for a
  question, a context and a history. The binding of \<open>trimmedContext\<close> is kept as the source
  has it.
\<close>

definition generateRequest ::
  "string \<Rightarrow> string \<Rightarrow> ChatMessage list \<Rightarrow> GenerateContentRequest" where
  "generateRequest question ctx history =
     (let trimmed = trimmedContext ctx;
          contents =
            map (\<lambda>msg. \<lparr> role = (if msgRole msg = USER then ''user'' else ''model''),
                          parts = [msgContent msg] \<rparr>) history
            @ [\<lparr> role = ''user'', parts = [question] \<rparr>]
      in \<lparr> reqModel = SCOUT_MODEL_ID,
           reqContents = contents,
           reqSystemInstruction = systemInstruction,
           reqTemperature = 0 \<rparr>)"

text \<open>Every text the request carries.\<close>

definition requestTexts :: "GenerateContentRequest \<Rightarrow> string list" where
  "requestTexts r = reqSystemInstruction r # concat (map parts (reqContents r))"

text \<open>\<open>String.prototype.includes\<close>: the needle occurs somewhere in the text.\<close>

fun startsWith :: "string \<Rightarrow> string \<Rightarrow> bool" where
  "startsWith _ [] = True"
| "startsWith [] (n # ns) = False"
| "startsWith (c # cs) (n # ns) = (c = n \<and> startsWith cs ns)"

fun includesStr :: "string \<Rightarrow> string \<Rightarrow> bool" where
  "includesStr [] needle = (needle = [])"
| "includesStr (c # cs) needle = (startsWith (c # cs) needle \<or> includesStr cs needle)"

section \<open>The specification's formulas\<close>

text \<open>
  The chunk count as the specification writes it:
  \<open>ceil(max(L - O, 0) / (S - O))\<close>.
\<close>

definition specChunkCount :: "nat \<Rightarrow> int \<Rightarrow> int \<Rightarrow> nat" where
  "specChunkCount l s ov = nat \<lceil>real_of_int (max (int l - ov) 0) / real_of_int (s - ov)\<rceil>"

text \<open>
  Concatenation with the overlaps de-duplicated: the first chunk in full, then every
  further chunk without its first \<open>n\<close> characters.
\<close>

definition dedupConcat :: "nat \<Rightarrow> 'a list list \<Rightarrow> 'a list" where
  "dedupConcat n chunks = (case chunks of [] \<Rightarrow> [] | c # cs \<Rightarrow> c @ concat (map (drop n) cs))"

text \<open>A text has a page-number artifact when \<open>/Page\s+\d+/i\<close> matches at some position.\<close>

fun hasPageNumber :: "string \<Rightarrow> bool" where
  "hasPageNumber [] = False"
| "hasPageNumber (c # cs) = (matchPageNumber (c # cs) \<noteq> None \<or> hasPageNumber cs)"

section \<open>Concrete inputs\<close>

text \<open>The initial state of the component (the argument of \<open>useState\<close>).\<close>

definition initialState :: AppState where
  "initialState =
     \<lparr> user = None, currentView = Login, messages = [], documents = [],
       isProcessing = False, activeDocumentId = None, errorMessage = None \<rparr>"

text \<open>Libraries that decode every file to the text of the specification's scenario.\<close>

definition sampleText :: string where
  "sampleText = ''Hello   world\<newline>\<newline>\<newline>Page 3 foo''"

definition sampleLibs :: libs where
  "sampleLibs =
     \<lparr> pdfPages = (\<lambda>_. Inr [[''Hello'', '''', '''', ''world''], [], [''Page'', ''3'', ''foo'']]),
       mammothRawText = (\<lambda>_. Inr sampleText),
       readAsText = (\<lambda>_. Inr sampleText) \<rparr>"

definition sampleEnv :: env where
  "sampleEnv =
     \<lparr> envLibs = sampleLibs, saveDocument = (\<lambda>_. Inr ()), randomId = ''k3x9q'', now = 1700000000000 \<rparr>"

definition sampleFile :: "string \<Rightarrow> File" where
  "sampleFile name = \<lparr> fileName = name, fileType = [], fileSize = 25, fileBytes = [] \<rparr>"

section \<open>Auxiliary definitions\<close>

text \<open>
  The chunks the loop appends from a given offset on, as a total function: it is empty
  unless the step \<open>csize - overlap\<close> is positive.
\<close>

function chunksFrom :: "'a list \<Rightarrow> int \<Rightarrow> int \<Rightarrow> int \<Rightarrow> 'a list list" where
  "chunksFrom text csize overlap index =
     (if overlap < csize \<and> index < int (length text)
      then substring text index (index + csize) # chunksFrom text csize overlap (index + (csize - overlap))
      else [])"
  by pat_completeness auto
termination
  by (relation "measure (\<lambda>(text, csize, overlap, index). nat (int (length text) - index))") auto

declare chunksFrom.simps [simp del]

text \<open>
  A text is collapsed when its only white space is single spaces, none next to another.
\<close>

fun collapsed :: "string \<Rightarrow> bool" where
  "collapsed [] = True"
| "collapsed [c] = (isWhiteSpace c \<longrightarrow> c = CHR '' '')"
| "collapsed (a # b # cs) =
     ((isWhiteSpace a \<longrightarrow> a = CHR '' '' \<and> \<not> isWhiteSpace b) \<and> collapsed (b # cs))"

section \<open>Lemmas about chunkText\<close>

lemma chunkLoop_chunksFrom:
  "overlap < csize \<Longrightarrow>
   chunkLoop t csize overlap index chunks = Some (chunks @ chunksFrom t csize overlap index)"
proof (induction t csize overlap index arbitrary: chunks rule: chunksFrom.induct)
  case (1 t csize overlap index)
  show ?case
  proof (cases "index < int (length t)")
    case True
    with 1 show ?thesis
      by (subst chunkLoop.simps, subst chunksFrom.simps) simp
  next
    case False
    then show ?thesis
      by (subst chunkLoop.simps, subst chunksFrom.simps) simp
  qed
qed

lemma take_min_length: "take (min n (length xs)) xs = take n xs"
  by (simp add: min_def)

lemma substring_nonneg:
  assumes "0 \<le> i" "0 \<le> n"
  shows "substring t i (i + n) = take (nat n) (drop (nat i) t)"
proof (cases "i \<le> int (length t)")
  case True
  have "length (drop (nat i) t) = nat (int (length t) - i)"
    using assms by (simp add: nat_diff_distrib)
  then have "nat (min (i + n) (int (length t)) - i) = min (nat n) (length (drop (nat i) t))"
    using assms True by linarith
  then have "take (nat (min (i + n) (int (length t)) - i)) (drop (nat i) t) = take (nat n) (drop (nat i) t)"
    by (simp only: take_min_length)
  moreover have "substring t i (i + n) = take (nat (min (i + n) (int (length t)) - i)) (drop (nat i) t)"
    using assms True unfolding substring_def Let_def by (simp add: min_def max_def)
  ultimately show ?thesis by simp
next
  case False
  then show ?thesis
    using assms unfolding substring_def Let_def by (simp add: min_def max_def)
qed

lemma length_chunksFrom:
  "overlap < csize \<Longrightarrow>
   int (length (chunksFrom t csize overlap index)) = max 0 (- ((index - int (length t)) div (csize - overlap)))"
proof (induction t csize overlap index rule: chunksFrom.induct)
  case (1 t csize overlap index)
  let ?d = "csize - overlap"
  have d: "0 < ?d" using 1(2) by simp
  show ?case
  proof (cases "index < int (length t)")
    case True
    have neg: "(index - int (length t)) div ?d < 0"
      using True d by (simp add: div_neg_pos_less0)
    have "index + ?d - int (length t) = (index - int (length t)) + ?d" by simp
    then have step: "(index + ?d - int (length t)) div ?d = (index - int (length t)) div ?d + 1"
      using d by (simp only: div_add_self2)
    from 1(1) [OF _ 1(2)] True 1(2)
    have "int (length (chunksFrom t csize overlap (index + ?d))) =
          max 0 (- ((index + ?d - int (length t)) div ?d))" by simp
    with True 1(2) neg step show ?thesis
      by (subst chunksFrom.simps) (simp add: max_def)
  next
    case False
    then have "0 \<le> (index - int (length t)) div ?d"
      using d by (simp add: pos_imp_zdiv_nonneg_iff)
    with False show ?thesis
      by (subst chunksFrom.simps) simp
  qed
qed

lemma nth_chunksFrom:
  "overlap < csize \<Longrightarrow> k < length (chunksFrom t csize overlap index) \<Longrightarrow>
   chunksFrom t csize overlap index ! k =
     substring t (index + int k * (csize - overlap)) (index + int k * (csize - overlap) + csize)"
proof (induction t csize overlap index arbitrary: k rule: chunksFrom.induct)
  case (1 t csize overlap index)
  from 1(3) have inside: "index < int (length t)"
    by (subst (asm) chunksFrom.simps) (auto split: if_splits)
  have unfold: "chunksFrom t csize overlap index =
      substring t index (index + csize) # chunksFrom t csize overlap (index + (csize - overlap))"
    using inside 1(2) by (subst chunksFrom.simps) simp
  show ?case
  proof (cases k)
    case 0
    then show ?thesis using unfold by simp
  next
    case (Suc j)
    with 1(3) unfold have "j < length (chunksFrom t csize overlap (index + (csize - overlap)))"
      by simp
    from 1(1) [OF _ 1(2) this] inside 1(2) Suc unfold show ?thesis
      by (simp add: algebra_simps)
  qed
qed

lemma chunksFrom_bounds:
  "overlap < csize \<Longrightarrow> 0 < csize \<Longrightarrow> 0 \<le> index \<Longrightarrow> c \<in> set (chunksFrom t csize overlap index) \<Longrightarrow>
   c \<noteq> [] \<and> length c \<le> nat csize"
proof (induction t csize overlap index rule: chunksFrom.induct)
  case (1 t csize overlap index)
  from 1(5) have inside: "index < int (length t)"
    by (subst (asm) chunksFrom.simps) (auto split: if_splits)
  from 1(5) inside 1(2)
  consider "c = substring t index (index + csize)"
    | "c \<in> set (chunksFrom t csize overlap (index + (csize - overlap)))"
    by (subst (asm) chunksFrom.simps) auto
  then show ?case
  proof cases
    case 1
    then show ?thesis
      using inside \<open>0 < csize\<close> \<open>0 \<le> index\<close> by (simp add: substring_nonneg)
  next
    case 2
    with 1(1) [OF _ 1(2,3)] inside 1(2,4) show ?thesis by simp
  qed
qed

lemma concat_drop_chunksFrom:
  "0 < overlap \<Longrightarrow> overlap < csize \<Longrightarrow> 0 \<le> index \<Longrightarrow>
   concat (map (drop (nat overlap)) (chunksFrom t csize overlap index)) = drop (nat (index + overlap)) t"
proof (induction t csize overlap index rule: chunksFrom.induct)
  case (1 t csize overlap index)
  show ?case
  proof (cases "index < int (length t)")
    case True
    have unfold: "chunksFrom t csize overlap index =
        substring t index (index + csize) # chunksFrom t csize overlap (index + (csize - overlap))"
      using True 1(3) by (subst chunksFrom.simps) simp
    have ih: "concat (map (drop (nat overlap)) (chunksFrom t csize overlap (index + (csize - overlap)))) =
        drop (nat (index + csize)) t"
      using 1(1) [OF _ 1(2,3)] True 1(3,4) by simp
    have "nat overlap + nat index = nat (index + overlap)" "nat csize - nat overlap = nat (csize - overlap)"
      using 1(2,3,4) by simp_all
    then have "drop (nat overlap) (substring t index (index + csize)) =
          take (nat (csize - overlap)) (drop (nat (index + overlap)) t)"
      using 1(2,3,4) by (simp add: substring_nonneg drop_take)
    moreover have "nat (index + csize) = nat (csize - overlap) + nat (index + overlap)"
      using 1(2,3,4) by simp
    ultimately show ?thesis
      using unfold ih by (simp add: drop_drop [symmetric] del: drop_drop)
  next
    case False
    then show ?thesis using 1(2) by (subst chunksFrom.simps) simp
  qed
qed

lemma chunkText_chunksFrom:
  "overlap < csize \<Longrightarrow> chunkText t csize overlap = Some (chunksFrom t csize overlap 0)"
  unfolding chunkText_def by (simp add: chunkLoop_chunksFrom)

lemma chunkLoopLimited_chunksFrom:
  "overlap < csize \<Longrightarrow> length chunks \<le> limit \<Longrightarrow>
   chunkLoopLimited limit t csize overlap index chunks =
     (if length chunks + length (chunksFrom t csize overlap index) \<le> limit
      then Inr (chunks @ chunksFrom t csize overlap index) else Inl RangeError)"
proof (induction t csize overlap index arbitrary: chunks rule: chunksFrom.induct)
  case (1 t csize overlap index)
  show ?case
  proof (cases "index < int (length t)")
    case True
    have unfold: "chunksFrom t csize overlap index =
        substring t index (index + csize) # chunksFrom t csize overlap (index + (csize - overlap))"
      using True 1(2) by (subst chunksFrom.simps) simp
    show ?thesis
    proof (cases "length chunks < limit")
      case room: True
      then have "length (chunks @ [substring t index (index + csize)]) \<le> limit" by simp
      from 1(1) [OF _ 1(2) this] True 1(2) room show ?thesis
        by (subst chunkLoopLimited.simps) (simp add: unfold)
    next
      case False
      with True show ?thesis
        by (subst chunkLoopLimited.simps) (simp add: unfold)
    qed
  next
    case False
    then have "chunksFrom t csize overlap index = []"
      by (subst chunksFrom.simps) simp
    with False 1(3) show ?thesis
      by (subst chunkLoopLimited.simps) simp
  qed
qed

lemma chunkLoopLimited_RangeError:
  "csize \<le> overlap \<Longrightarrow> index < int (length t) \<Longrightarrow>
   chunkLoopLimited limit t csize overlap index chunks = Inl RangeError"
proof (induction limit t csize overlap index chunks rule: chunkLoopLimited.induct)
  case (1 limit t csize overlap index chunks)
  show ?case
  proof (cases "length chunks < limit")
    case True
    from 1(3) 1(2) have "index + (csize - overlap) < int (length t)" by simp
    from 1(1) [OF 1(3) True 1(2) this] 1(3) True show ?thesis
      by (subst chunkLoopLimited.simps) simp
  next
    case False
    with 1(3) show ?thesis
      by (subst chunkLoopLimited.simps) simp
  qed
qed

section \<open>Lemmas about cleanText\<close>

declare replaceWhitespace.simps [simp del] replaceNewlines.simps [simp del]
  removePageNumbers.simps [simp del]

lemma replaceWhitespace_Nil [simp]: "replaceWhitespace [] = []"
  by (simp add: replaceWhitespace.simps)

lemma replaceWhitespace_space:
  "isWhiteSpace c \<Longrightarrow>
   replaceWhitespace (c # cs) = CHR '' '' # replaceWhitespace (dropWhile isWhiteSpace cs)"
  by (simp add: replaceWhitespace.simps)

lemma replaceWhitespace_other:
  "\<not> isWhiteSpace c \<Longrightarrow> replaceWhitespace (c # cs) = c # replaceWhitespace cs"
  by (simp add: replaceWhitespace.simps)

lemma isWhiteSpace_space [simp]: "isWhiteSpace (CHR '' '')"
  by (simp add: isWhiteSpace_def)

lemma isWhiteSpace_newline [simp]: "isWhiteSpace (CHR 0x0A)"
  by (simp add: isWhiteSpace_def)

lemma dropWhile_head: "dropWhile P xs = y # ys \<Longrightarrow> \<not> P y"
  using hd_dropWhile [of P xs] by simp

lemma collapsed_tl: "collapsed (a # s) \<Longrightarrow> collapsed s"
  by (cases s) auto

lemma collapsed_replaceWhitespace: "collapsed (replaceWhitespace s)"
proof (induction s rule: replaceWhitespace.induct)
  case 1
  show ?case by simp
next
  case (2 c cs)
  show ?case
  proof (cases "isWhiteSpace c")
    case True
    let ?d = "dropWhile isWhiteSpace cs"
    show ?thesis
    proof (cases ?d)
      case Nil
      from True have "replaceWhitespace (c # cs) = CHR '' '' # replaceWhitespace ?d"
        by (rule replaceWhitespace_space)
      then have "replaceWhitespace (c # cs) = [CHR '' '']"
        by (simp only: Nil replaceWhitespace_Nil)
      then show ?thesis by simp
    next
      case (Cons y ys)
      then have "\<not> isWhiteSpace y" by (rule dropWhile_head)
      with 2(1) [OF True] True Cons show ?thesis
        by (simp add: replaceWhitespace_space replaceWhitespace_other)
    qed
  next
    case False
    with 2(2) show ?thesis
      by (cases "replaceWhitespace cs") (simp_all add: replaceWhitespace_other)
  qed
qed

lemma replaceWhitespace_collapsed: "collapsed s \<Longrightarrow> replaceWhitespace s = s"
proof (induction s rule: collapsed.induct)
  case 1
  show ?case by simp
next
  case (2 c)
  then show ?case
    by (cases "isWhiteSpace c") (simp_all add: replaceWhitespace_space replaceWhitespace_other)
next
  case (3 a b cs)
  then show ?case
    by (cases "isWhiteSpace a") (simp_all add: replaceWhitespace_space replaceWhitespace_other)
qed

lemma replaceNewlines_collapsed: "collapsed s \<Longrightarrow> replaceNewlines s = s"
proof (induction s rule: collapsed.induct)
  case 1
  show ?case by (simp add: replaceNewlines.simps)
next
  case (2 c)
  show ?case by (simp add: replaceNewlines.simps)
next
  case (3 a b cs)
  from 3(2) have neq: "\<not> (a = CHR 0x0A \<and> b = CHR 0x0A)" by auto
  have "replaceNewlines (a # b # cs) = a # replaceNewlines (b # cs)"
    by (subst replaceNewlines.simps) (simp only: neq if_False)
  with 3 show ?case by simp
qed

lemma collapsed_dropWhile: "collapsed s \<Longrightarrow> collapsed (dropWhile P s)"
  by (induction s) (auto dest: collapsed_tl)

lemma collapsed_prefix: "collapsed (s @ t) \<Longrightarrow> collapsed s"
proof (induction s rule: collapsed.induct)
  case 1
  show ?case by simp
next
  case (2 c)
  then show ?case by (cases t) auto
next
  case (3 a b cs)
  then show ?case by simp
qed

lemma dropWhile_rev_prefix: "rev (dropWhile P (rev s)) @ rev (takeWhile P (rev s)) = s"
proof -
  have "rev (takeWhile P (rev s) @ dropWhile P (rev s)) = s" by simp
  then show ?thesis by (simp only: rev_append)
qed

lemma collapsed_trim: "collapsed s \<Longrightarrow> collapsed (trim s)"
proof -
  assume "collapsed s"
  then have "collapsed (dropWhile isWhiteSpace s)" by (rule collapsed_dropWhile)
  then have "collapsed (trim s @ rev (takeWhile isWhiteSpace (rev (dropWhile isWhiteSpace s))))"
    unfolding trim_def by (simp only: dropWhile_rev_prefix)
  then show ?thesis by (rule collapsed_prefix)
qed

lemma dropWhile_trim: "dropWhile isWhiteSpace (trim s) = trim s"
proof (cases "trim s")
  case Nil
  then show ?thesis by simp
next
  case (Cons y ys)
  let ?a = "dropWhile isWhiteSpace s"
  have "trim s @ rev (takeWhile isWhiteSpace (rev ?a)) = ?a"
    unfolding trim_def by (rule dropWhile_rev_prefix)
  with Cons have "?a = y # (ys @ rev (takeWhile isWhiteSpace (rev ?a)))" by simp
  then have "\<not> isWhiteSpace y" by (rule dropWhile_head)
  with Cons show ?thesis by simp
qed

lemma trim_trim: "trim (trim s) = trim s"
proof -
  have "trim (trim s) = rev (dropWhile isWhiteSpace (rev (trim s)))"
    unfolding trim_def [of "trim s"] by (simp only: dropWhile_trim)
  also have "\<dots> = trim s" unfolding trim_def by simp
  finally show ?thesis .
qed

lemma matchPageNumber_append:
  assumes "matchPageNumber s \<noteq> None"
  shows "matchPageNumber (s @ t) \<noteq> None"
proof -
  from assms obtain p a g e u where s: "s = p # a # g # e # u"
    unfolding matchPageNumber_def by (auto split: list.splits)
  let ?d = "dropWhile isWhiteSpace u"
  from assms s have letters: "(p = CHR ''P'' \<or> p = CHR ''p'') \<and> (a = CHR ''A'' \<or> a = CHR ''a'') \<and>
             (g = CHR ''G'' \<or> g = CHR ''g'') \<and> (e = CHR ''E'' \<or> e = CHR ''e'')"
    and u: "u \<noteq> []" "isWhiteSpace (hd u)" and d: "?d \<noteq> []" "isDigit (hd ?d)"
    unfolding matchPageNumber_def by (auto simp: Let_def split: if_splits)
  from d(1) obtain x where "x \<in> set u" "\<not> isWhiteSpace x"
    by (auto simp: dropWhile_eq_Nil_conv)
  then have "dropWhile isWhiteSpace (u @ t) = ?d @ t"
    by (rule dropWhile_append1)
  with letters u d s show ?thesis
    unfolding matchPageNumber_def by (simp add: Let_def)
qed

lemma hasPageNumber_append: "hasPageNumber s \<Longrightarrow> hasPageNumber (s @ t)"
proof (induction s)
  case Nil
  then show ?case by simp
next
  case (Cons c cs)
  then show ?case
    using matchPageNumber_append [of "c # cs" t] by auto
qed

lemma hasPageNumber_dropWhile: "hasPageNumber (dropWhile P s) \<Longrightarrow> hasPageNumber s"
  by (induction s) (auto split: if_splits)

lemma hasPageNumber_trim: "hasPageNumber (trim s) \<Longrightarrow> hasPageNumber s"
proof -
  assume "hasPageNumber (trim s)"
  then have "hasPageNumber (trim s @ rev (takeWhile isWhiteSpace (rev (dropWhile isWhiteSpace s))))"
    by (rule hasPageNumber_append)
  then have "hasPageNumber (dropWhile isWhiteSpace s)"
    unfolding trim_def by (simp only: dropWhile_rev_prefix)
  then show ?thesis by (rule hasPageNumber_dropWhile)
qed

lemma removePageNumbers_none: "\<not> hasPageNumber s \<Longrightarrow> removePageNumbers s = s"
  by (induction s) (auto simp: removePageNumbers.simps)

lemma cleanText_idem_collapsed:
  assumes "\<not> hasPageNumber (replaceWhitespace (replaceNewlines x))"
  shows "cleanText (cleanText x) = cleanText x"
proof -
  let ?w = "replaceWhitespace (replaceNewlines x)"
  have c: "cleanText x = trim ?w"
    unfolding cleanText_def using assms by (simp add: removePageNumbers_none)
  have col: "collapsed (trim ?w)"
    by (intro collapsed_trim collapsed_replaceWhitespace)
  have "\<not> hasPageNumber (trim ?w)" using assms hasPageNumber_trim by blast
  then have "cleanText (trim ?w) = trim (trim ?w)"
    unfolding cleanText_def [of "trim ?w"] using col
    by (simp add: replaceNewlines_collapsed replaceWhitespace_collapsed removePageNumbers_none)
  with c show ?thesis by (simp add: trim_trim)
qed

lemma replaceWhitespace_Cons_other:
  assumes "replaceWhitespace s = c # r" "\<not> isWhiteSpace c"
  shows "\<exists>s'. s = c # s' \<and> r = replaceWhitespace s'"
proof (cases s)
  case Nil
  with assms show ?thesis by simp
next
  case (Cons y ys)
  show ?thesis
  proof (cases "isWhiteSpace y")
    case True
    with assms Cons show ?thesis by (auto simp: replaceWhitespace_space)
  next
    case False
    with assms Cons show ?thesis by (auto simp: replaceWhitespace_other)
  qed
qed

lemma replaceWhitespace_Cons_space:
  assumes "replaceWhitespace s = c # r" "isWhiteSpace c"
  shows "\<exists>w s'. s = w # s' \<and> isWhiteSpace w \<and> r = replaceWhitespace (dropWhile isWhiteSpace s')"
proof (cases s)
  case Nil
  with assms show ?thesis by simp
next
  case (Cons y ys)
  show ?thesis
  proof (cases "isWhiteSpace y")
    case True
    with assms Cons show ?thesis by (auto simp: replaceWhitespace_space)
  next
    case False
    with assms Cons show ?thesis by (auto simp: replaceWhitespace_other)
  qed
qed

lemma dropWhile_replaceWhitespace:
  "dropWhile isWhiteSpace (replaceWhitespace (dropWhile isWhiteSpace s)) =
   replaceWhitespace (dropWhile isWhiteSpace s)"
proof (cases "dropWhile isWhiteSpace s")
  case Nil
  then show ?thesis by (simp only: replaceWhitespace_Nil dropWhile.simps)
next
  case (Cons y ys)
  then have "\<not> isWhiteSpace y" by (rule dropWhile_head)
  then show ?thesis by (simp add: Cons replaceWhitespace_other)
qed

lemma replaceWhitespace_dropWhile:
  "replaceWhitespace (dropWhile isWhiteSpace s) = dropWhile isWhiteSpace (replaceWhitespace s)"
proof (cases s)
  case Nil
  then show ?thesis by simp
next
  case (Cons c cs)
  show ?thesis
  proof (cases "isWhiteSpace c")
    case True
    with Cons show ?thesis
      by (simp add: replaceWhitespace_space dropWhile_replaceWhitespace)
  next
    case False
    with Cons show ?thesis by (simp add: replaceWhitespace_other)
  qed
qed

lemma letters_not_space:
  "c = CHR ''P'' \<or> c = CHR ''p'' \<or> c = CHR ''A'' \<or> c = CHR ''a'' \<or>
   c = CHR ''G'' \<or> c = CHR ''g'' \<or> c = CHR ''E'' \<or> c = CHR ''e'' \<Longrightarrow> \<not> isWhiteSpace c"
  by (auto simp: isWhiteSpace_def)

lemma isDigit_not_space: "isDigit c \<Longrightarrow> \<not> isWhiteSpace c"
  by (auto simp: isDigit_def isWhiteSpace_def)

lemma matchPageNumber_replaceWhitespace:
  assumes "matchPageNumber (replaceWhitespace s) \<noteq> None"
  shows "matchPageNumber s \<noteq> None"
proof -
  from assms obtain p a g e u where w: "replaceWhitespace s = p # a # g # e # u"
    unfolding matchPageNumber_def by (auto split: list.splits)
  let ?d = "dropWhile isWhiteSpace u"
  from assms w have letters: "(p = CHR ''P'' \<or> p = CHR ''p'') \<and> (a = CHR ''A'' \<or> a = CHR ''a'') \<and>
             (g = CHR ''G'' \<or> g = CHR ''g'') \<and> (e = CHR ''E'' \<or> e = CHR ''e'')"
    and u: "u \<noteq> []" "isWhiteSpace (hd u)" and d: "?d \<noteq> []" "isDigit (hd ?d)"
    unfolding matchPageNumber_def by (auto simp: Let_def split: if_splits)
  have np: "\<not> isWhiteSpace p" using letters letters_not_space [of p] by blast
  have na: "\<not> isWhiteSpace a" using letters letters_not_space [of a] by blast
  have ng: "\<not> isWhiteSpace g" using letters letters_not_space [of g] by blast
  have ne: "\<not> isWhiteSpace e" using letters letters_not_space [of e] by blast
  from replaceWhitespace_Cons_other [OF w np] obtain s1
    where s1: "s = p # s1" "a # g # e # u = replaceWhitespace s1" by auto
  from replaceWhitespace_Cons_other [OF s1(2) [symmetric] na] obtain s2
    where s2: "s1 = a # s2" "g # e # u = replaceWhitespace s2" by auto
  from replaceWhitespace_Cons_other [OF s2(2) [symmetric] ng] obtain s3
    where s3: "s2 = g # s3" "e # u = replaceWhitespace s3" by auto
  from replaceWhitespace_Cons_other [OF s3(2) [symmetric] ne] obtain s4
    where s4: "s3 = e # s4" "u = replaceWhitespace s4" by auto
  from u obtain c r where ucr: "u = c # r" "isWhiteSpace c" by (cases u) auto
  from replaceWhitespace_Cons_space [of s4 c r] s4(2) ucr obtain w0 s5
    where s5: "s4 = w0 # s5" "isWhiteSpace w0" by auto
  have "?d = replaceWhitespace (dropWhile isWhiteSpace s4)"
    unfolding s4(2) by (rule replaceWhitespace_dropWhile [symmetric])
  with d have "replaceWhitespace (dropWhile isWhiteSpace s4) \<noteq> []"
    "isDigit (hd (replaceWhitespace (dropWhile isWhiteSpace s4)))" by simp_all
  then obtain y ys where dy: "replaceWhitespace (dropWhile isWhiteSpace s4) = y # ys" "isDigit y"
    by (cases "replaceWhitespace (dropWhile isWhiteSpace s4)") auto
  from replaceWhitespace_Cons_other [OF dy(1) isDigit_not_space [OF dy(2)]]
  obtain s6 where "dropWhile isWhiteSpace s4 = y # s6" by auto
  with letters s1 s2 s3 s4 s5 dy(2) show ?thesis
    unfolding matchPageNumber_def by (simp add: Let_def)
qed

lemma matchPageNumber_space: "isWhiteSpace c \<Longrightarrow> matchPageNumber (c # s) = None"
  unfolding matchPageNumber_def using letters_not_space [of c]
  by (auto split: list.splits)

lemma hasPageNumber_replaceWhitespace:
  "hasPageNumber (replaceWhitespace s) \<Longrightarrow> hasPageNumber s"
proof (induction s rule: replaceWhitespace.induct)
  case 1
  then show ?case by simp
next
  case (2 c cs)
  show ?case
  proof (cases "isWhiteSpace c")
    case True
    with 2(3) have "hasPageNumber (replaceWhitespace (dropWhile isWhiteSpace cs))"
      by (simp add: replaceWhitespace_space matchPageNumber_space)
    from 2(1) [OF True this] have "hasPageNumber cs" by (rule hasPageNumber_dropWhile)
    then show ?thesis by simp
  next
    case False
    then have eq: "replaceWhitespace (c # cs) = c # replaceWhitespace cs"
      by (rule replaceWhitespace_other)
    from 2(3) consider "matchPageNumber (replaceWhitespace (c # cs)) \<noteq> None"
      | "hasPageNumber (replaceWhitespace cs)"
      unfolding eq by auto
    moreover note ih = 2(2) [OF False]
    ultimately show ?thesis
      using matchPageNumber_replaceWhitespace [of "c # cs"] by auto
  qed
qed

lemma dropWhile_space_newline:
  "dropWhile isWhiteSpace (dropWhile (\<lambda>c. c = CHR 0x0A) s) = dropWhile isWhiteSpace s"
  by (induction s) auto

lemma replaceWhitespace_replaceNewlines:
  "replaceWhitespace (replaceNewlines s) = replaceWhitespace s"
proof (induction s rule: replaceNewlines.induct)
  case 1
  show ?case by (simp add: replaceNewlines.simps)
next
  case (2 c)
  show ?case by (simp add: replaceNewlines.simps)
next
  case (3 a b cs)
  show ?case
  proof (cases "a = CHR 0x0A \<and> b = CHR 0x0A")
    case True
    let ?v = "dropWhile (\<lambda>c. c = CHR 0x0A) cs"
    have "replaceNewlines (a # b # cs) = CHR 0x0A # replaceNewlines ?v"
      by (subst replaceNewlines.simps) (simp only: True if_True simp_thms)
    then have "replaceWhitespace (replaceNewlines (a # b # cs)) =
        CHR '' '' # replaceWhitespace (dropWhile isWhiteSpace (replaceNewlines ?v))"
      by (simp add: replaceWhitespace_space)
    also have "replaceWhitespace (dropWhile isWhiteSpace (replaceNewlines ?v)) =
        dropWhile isWhiteSpace (replaceWhitespace ?v)"
      using 3(1) [OF True] by (simp add: replaceWhitespace_dropWhile)
    also have "\<dots> = replaceWhitespace (dropWhile isWhiteSpace cs)"
      by (simp add: replaceWhitespace_dropWhile [symmetric] dropWhile_space_newline)
    finally show ?thesis using True by (simp add: replaceWhitespace_space)
  next
    case False
    have eq: "replaceNewlines (a # b # cs) = a # replaceNewlines (b # cs)"
      by (subst replaceNewlines.simps) (simp only: False if_False)
    show ?thesis
    proof (cases "isWhiteSpace a")
      case True
      have "replaceWhitespace (replaceNewlines (a # b # cs)) =
          CHR '' '' # dropWhile isWhiteSpace (replaceWhitespace (replaceNewlines (b # cs)))"
        unfolding eq using True by (simp add: replaceWhitespace_space replaceWhitespace_dropWhile)
      also have "\<dots> = CHR '' '' # replaceWhitespace (dropWhile isWhiteSpace (b # cs))"
        using 3(2) [OF False] by (simp only: replaceWhitespace_dropWhile)
      finally show ?thesis using True by (simp only: replaceWhitespace_space)
    next
      case no: False
      with 3(2) [OF False] show ?thesis
        unfolding eq by (simp add: replaceWhitespace_other)
    qed
  qed
qed

lemma cleanText_idem_clean:
  assumes "\<not> hasPageNumber x"
  shows "cleanText (cleanText x) = cleanText x"
proof -
  have "\<not> hasPageNumber (replaceWhitespace (replaceNewlines x))"
    using assms hasPageNumber_replaceWhitespace [of x]
    by (simp only: replaceWhitespace_replaceNewlines) blast
  then show ?thesis by (rule cleanText_idem_collapsed)
qed

section \<open>Lemmas about extractTextFromFile and handleFileUpload\<close>

lemma splitDot_not_Nil: "splitDot s \<noteq> []"
  by (induction s) (auto split: list.splits)

lemma splitDot_no_dot: "CHR ''.'' \<notin> set s \<Longrightarrow> splitDot s = [s]"
  by (induction s) auto

lemma length_splitDot: "length (splitDot s) = Suc (length (filter (\<lambda>c. c = CHR ''.'') s))"
  by (induction s) (auto split: list.splits)

lemma last_splitDot_append: "last (splitDot (b @ CHR ''.'' # e)) = last (splitDot e)"
proof (induction b)
  case Nil
  show ?case using splitDot_not_Nil [of e] by simp
next
  case (Cons c b)
  let ?rest = "b @ CHR ''.'' # e"
  have "2 \<le> length (splitDot ?rest)" by (simp add: length_splitDot)
  then obtain seg seg' segs where rest: "splitDot ?rest = seg # seg' # segs"
    by (cases "splitDot ?rest"; cases "tl (splitDot ?rest)") auto
  then have "last (splitDot (c # ?rest)) = last (splitDot ?rest)" by simp
  with Cons show ?case by simp
qed

lemma fileExtension_no_dot:
  "CHR ''.'' \<notin> set name \<Longrightarrow> fileExtension name = Some (toLowerCase name)"
  by (simp add: fileExtension_def pop_def splitDot_no_dot)

lemma fileExtension_dot:
  "CHR ''.'' \<notin> set ext \<Longrightarrow> fileExtension (base @ CHR ''.'' # ext) = Some (toLowerCase ext)"
proof -
  assume nd: "CHR ''.'' \<notin> set ext"
  have "last (splitDot (base @ CHR ''.'' # ext)) = ext"
    using nd by (simp add: last_splitDot_append splitDot_no_dot)
  then show ?thesis
    using splitDot_not_Nil [of "base @ CHR ''.'' # ext"] by (simp add: fileExtension_def pop_def)
qed

lemma chunkTextDefault_Some: "chunkTextDefault t = Some (chunksFrom t 2000 200 0)"
  unfolding chunkTextDefault_def by (simp add: chunkText_chunksFrom)

lemma generateRequest_ignores_context:
  "generateRequest question c1 history = generateRequest question c2 history"
  by (simp add: generateRequest_def Let_def)

section \<open>The specification's chunking scenario\<close>

lemma chunkText_example:
  "chunkText ''abcdefghij'' 4 1 = Some [''abcd'', ''defg'', ''ghij'', ''j'']"
  by code_simp

section \<open>Claims\<close>

subsection \<open>C1\<close>

text \<open>
  C1. The claim: for every question, document content and history, \<open>generateResponse\<close>
  includesStr the document content as context in the request it sends, whole up to 800,000
  characters and otherwise cut there and followed by a truncation marker.
  The source computes that string (\<open>trimmedContext\<close>) and then never uses it: neither the
  system instruction nor the contents of the request interpolate it. For the question
  ``What is the capital?'' over the document ``The capital is Addis Ababa.'', the request
  is the fixed instruction and the question, the same request as for an empty document,
  and no text of it contains the document.
\<close>

theorem generateRequest_omits_context:
  "generateRequest ''What is the capital?'' ''The capital is Addis Ababa.'' [] =
     \<lparr> reqModel = ''gemini-3-flash-preview'',
       reqContents = [\<lparr> role = ''user'', parts = [''What is the capital?''] \<rparr>],
       reqSystemInstruction = systemInstruction,
       reqTemperature = 0 \<rparr>
   \<and> generateRequest ''What is the capital?'' ''The capital is Addis Ababa.'' [] =
       generateRequest ''What is the capital?'' [] []
   \<and> trimmedContext ''The capital is Addis Ababa.'' = ''The capital is Addis Ababa.''
   \<and> list_all (\<lambda>t. \<not> includesStr t ''The capital is Addis Ababa.'')
        (requestTexts (generateRequest ''What is the capital?'' ''The capital is Addis Ababa.'' []))"
proof -
  have req: "generateRequest ''What is the capital?'' ''The capital is Addis Ababa.'' [] =
     \<lparr> reqModel = ''gemini-3-flash-preview'',
       reqContents = [\<lparr> role = ''user'', parts = [''What is the capital?''] \<rparr>],
       reqSystemInstruction = systemInstruction,
       reqTemperature = 0 \<rparr>"
    by (simp add: generateRequest_def Let_def SCOUT_MODEL_ID_def)
  have same: "generateRequest ''What is the capital?'' ''The capital is Addis Ababa.'' [] =
       generateRequest ''What is the capital?'' [] []"
    by (rule generateRequest_ignores_context)
  have trimmed: "trimmedContext ''The capital is Addis Ababa.'' = ''The capital is Addis Ababa.''"
    by (simp add: trimmedContext_def)
  have "\<not> includesStr systemInstruction ''The capital is Addis Ababa.''"
    by code_simp
  moreover have "\<not> includesStr ''What is the capital?'' ''The capital is Addis Ababa.''"
    by code_simp
  ultimately have absent: "list_all (\<lambda>t. \<not> includesStr t ''The capital is Addis Ababa.'')
        (requestTexts (generateRequest ''What is the capital?'' ''The capital is Addis Ababa.'' []))"
    unfolding req by (simp add: requestTexts_def)
  from req same trimmed absent show ?thesis by (intro conjI)
qed

subsection \<open>C2\<close>

text \<open>
  C2. The claim: \<open>cleanText\<close> turns ``Hello   world\<newline>\<newline>\<newline>Page 3 foo'' (three spaces,
  three line feeds) into ``Hello world foo''. It does not: the line feeds have become one
  space before the artifact is removed, and the space in front of ``Page 3'' and the space
  behind it both stay, so the result has two spaces between ``world'' and ``foo''.
\<close>

theorem cleanText_scenario_counterexample:
  "cleanText ''Hello   world\<newline>\<newline>\<newline>Page 3 foo'' \<noteq> ''Hello world foo''"
  by code_simp

text \<open>
  C2, amended: \<open>cleanText\<close> turns that text into ``Hello world  foo'', with two spaces
  between ``world'' and ``foo''.
\<close>

theorem cleanText_scenario:
  "cleanText ''Hello   world\<newline>\<newline>\<newline>Page 3 foo'' = ''Hello world  foo''"
  by code_simp

subsection \<open>C3\<close>

text \<open>
  C3. The claim: for a text of length \<open>L\<close> and \<open>S > O\<close>, \<open>chunkText\<close> returns
  \<open>ceil(max(L - O, 0) / (S - O))\<close> chunks. On the specification's own scenario, the ten
  characters ``abcdefghij'' with \<open>S = 4\<close> and \<open>O = 1\<close>, the formula gives 3 and the code
  returns the 4 chunks at the offsets 0, 3, 6 and 9.
\<close>

theorem chunkText_count_counterexample:
  "map_option length (chunkText ''abcdefghij'' 4 1) \<noteq>
     Some (specChunkCount (length ''abcdefghij'') 4 1)"
  by (simp add: chunkText_example specChunkCount_def)

text \<open>
  C3, amended: for every text of length \<open>L\<close> and every \<open>S > O\<close>, \<open>chunkText\<close> returns, and
  the number of chunks is \<open>ceil(L / (S - O))\<close>; the empty text yields the empty sequence
  of chunks.
\<close>

theorem chunkText_count:
  "overlap < csize \<Longrightarrow>
   map_option length (chunkText t csize overlap) =
     Some (nat \<lceil>real (length t) / real_of_int (csize - overlap)\<rceil>)
   \<and> chunkText ([] :: 'a list) csize overlap = Some []"
proof -
  assume lt: "overlap < csize"
  have "real (length t) / real_of_int (csize - overlap) =
        real_of_int (int (length t)) / real_of_int (csize - overlap)" by simp
  then have "\<lceil>real (length t) / real_of_int (csize - overlap)\<rceil> =
        - ((- int (length t)) div (csize - overlap))"
    by (simp only: ceiling_divide_eq_div)
  moreover have "0 \<le> - ((- int (length t)) div (csize - overlap))"
    using lt div_nonpos_pos_le0 [of "- int (length t)" "csize - overlap"] by simp
  ultimately have "int (length (chunksFrom t csize overlap 0)) =
        \<lceil>real (length t) / real_of_int (csize - overlap)\<rceil>"
    using length_chunksFrom [OF lt, of t 0] by simp
  then have "length (chunksFrom t csize overlap 0) =
        nat \<lceil>real (length t) / real_of_int (csize - overlap)\<rceil>"
    by linarith
  moreover have "chunksFrom ([] :: 'a list) csize overlap 0 = []"
    by (subst chunksFrom.simps) simp
  ultimately show ?thesis
    using lt by (simp add: chunkText_chunksFrom)
qed

theorem chunkText_count_witness:
  "(1::int) < 4 \<and> map_option length (chunkText ''abcdefghij'' 4 1) = Some 4
   \<and> chunkText ('''' :: string) 4 1 = Some []"
  using chunkText_count [of 1 4 "''abcdefghij''"] by simp

subsection \<open>C4\<close>

text \<open>
  C4. The claim: \<open>chunkText\<close> terminates whenever \<open>S > O\<close>, and with \<open>S \<le> O\<close> it does not
  terminate for any non-empty text. The second half fails on a JavaScript array: every
  iteration pushes a chunk, so the array reaches its length limit and \<open>push\<close> throws.
  \<open>chunkText("ab", 2, 2)\<close> ends with \<open>RangeError\<close>.
\<close>

theorem chunkText_nontermination_counterexample:
  "chunkTextLimited maxArrayLength ''ab'' 2 2 = Inl RangeError"
  unfolding chunkTextLimited_def by (rule chunkLoopLimited_RangeError) simp_all

text \<open>
  C4, amended: for every text and every array length limit, \<open>chunkText\<close> terminates
  whenever \<open>S > O\<close>: it returns the chunks, or throws \<open>RangeError\<close> when there are more of them
  than the limit allows. With \<open>S \<le> O\<close> (which the code does not check) and a non-empty
  text the offset never advances past the text and the call never returns a value: from
  any offset inside the text the loop pushes chunks until the array length limit is
  reached and ends by throwing \<open>RangeError\<close>.
\<close>

theorem chunkTextLimited_terminates:
  "(overlap < csize \<longrightarrow>
      (\<exists>chunks. chunkText t csize overlap = Some chunks \<and>
         chunkTextLimited limit t csize overlap =
           (if length chunks \<le> limit then Inr chunks else Inl RangeError))) \<and>
   (csize \<le> overlap \<and> t \<noteq> [] \<longrightarrow>
      chunkTextLimited limit t csize overlap = Inl RangeError \<and>
      (\<forall>index chunks. index < int (length t) \<longrightarrow>
         chunkLoopLimited limit t csize overlap index chunks = Inl RangeError))"
  unfolding chunkTextLimited_def
  by (simp add: chunkText_chunksFrom chunkLoopLimited_chunksFrom chunkLoopLimited_RangeError)

theorem chunkTextLimited_terminates_witness:
  "((1::int) < 4 \<and>
      chunkText ''abcdefghij'' 4 1 = Some [''abcd'', ''defg'', ''ghij'', ''j''] \<and>
      chunkTextLimited 10 ''abcdefghij'' 4 1 = Inr [''abcd'', ''defg'', ''ghij'', ''j''] \<and>
      chunkTextLimited 3 ''abcdefghij'' 4 1 = Inl RangeError) \<and>
   ((2::int) \<le> 2 \<and> ''ab'' \<noteq> [] \<and> chunkTextLimited 5 ''ab'' 2 2 = Inl RangeError \<and>
      (1::int) < int (length ''ab'') \<and> chunkLoopLimited 5 ''ab'' 2 2 1 [''ab''] = Inl RangeError)"
  using chunkTextLimited_terminates [where overlap = 1 and csize = 4 and limit = 10 and t = "''abcdefghij''"]
    chunkTextLimited_terminates [where overlap = 1 and csize = 4 and limit = 3 and t = "''abcdefghij''"]
    chunkTextLimited_terminates [where overlap = 2 and csize = 2 and limit = 5 and t = "''ab''"]
  by (simp add: chunkText_example)

subsection \<open>C5\<close>

text \<open>
  C5. An upload always returns, and the Document record it builds (the one handed to the
  store, and the one appended to the documents of the state) has a \<open>chunkCount\<close> equal to
  the number of chunks of its \<open>content\<close> under the default parameters 2000 and 200.
\<close>

theorem handleFileUpload_chunkCount:
  "\<exists>st' saved. handleFileUpload e files st = Some (st', saved) \<and>
     (\<forall>d. saved = Some d \<longrightarrow>
        map_option length (chunkText (content d) 2000 200) = Some (chunkCount d)) \<and>
     (\<forall>d \<in> set (documents st') - set (documents st).
        map_option length (chunkText (content d) 2000 200) = Some (chunkCount d))"
proof (cases "files = []")
  case True
  then show ?thesis by (simp add: handleFileUpload_def)
next
  case False
  show ?thesis
  proof (cases "extractTextFromFile (envLibs e) (hd files)")
    case (Inl err)
    with False show ?thesis
      by (cases err) (simp add: handleFileUpload_def Let_def uploadFailed_def)
  next
    case (Inr t)
    let ?d = "newDoc e (hd files) t (chunksFrom t 2000 200 0)"
    have built: "content ?d = t" "chunkCount ?d = length (chunksFrom t 2000 200 0)"
      by (simp_all add: newDoc_def)
    show ?thesis
    proof (cases "saveDocument e ?d")
      case (Inl err)
      with False Inr built show ?thesis
        by (cases err)
           (simp add: handleFileUpload_def Let_def uploadFailed_def chunkTextDefault_Some
              chunkText_chunksFrom)
    next
      case saved: (Inr u)
      with False Inr built show ?thesis
        by (auto simp: handleFileUpload_def Let_def chunkTextDefault_Some chunkText_chunksFrom)
    qed
  qed
qed

theorem handleFileUpload_chunkCount_witness:
  "handleFileUpload sampleEnv [sampleFile ''notes.txt''] initialState =
     Some (initialState
             \<lparr> documents := [newDoc sampleEnv (sampleFile ''notes.txt'') ''Hello world  foo'' [''Hello world  foo'']],
               activeDocumentId := Some ''k3x9q'' \<rparr>,
           Some (newDoc sampleEnv (sampleFile ''notes.txt'') ''Hello world  foo'' [''Hello world  foo'']))
   \<and> chunkCount (newDoc sampleEnv (sampleFile ''notes.txt'') ''Hello world  foo'' [''Hello world  foo'']) = 1
   \<and> map_option length (chunkText ''Hello world  foo'' 2000 200) = Some 1"
proof -
  let ?d = "newDoc sampleEnv (sampleFile ''notes.txt'') ''Hello world  foo'' [''Hello world  foo'']"
  have extracted: "extractTextFromFile sampleLibs (sampleFile ''notes.txt'') = Inr ''Hello world  foo''"
    by code_simp
  have chunks: "chunkTextDefault ''Hello world  foo'' = Some [''Hello world  foo'']"
    by code_simp
  have run: "handleFileUpload sampleEnv [sampleFile ''notes.txt''] initialState =
     Some (initialState \<lparr> documents := [?d], activeDocumentId := Some ''k3x9q'' \<rparr>, Some ?d)"
    by (simp add: handleFileUpload_def Let_def sampleEnv_def extracted chunks initialState_def newDoc_def)
  from handleFileUpload_chunkCount [of sampleEnv "[sampleFile ''notes.txt'']" initialState]
  have "map_option length (chunkText (content ?d) 2000 200) = Some (chunkCount ?d)"
    unfolding run by simp
  then have "map_option length (chunkText ''Hello world  foo'' 2000 200) = Some 1"
    by (simp add: newDoc_def)
  with run show ?thesis by (simp add: newDoc_def)
qed

subsection \<open>C6\<close>

text \<open>
  C6. The claim: \<open>cleanText\<close> is idempotent on every text, also on texts with line feeds,
  tabs and ``Page 12'' artifacts. It is not: removing an artifact leaves the space in
  front of it next to the space behind it, and a second pass collapses the two.
  ``a\<newline>\<open>\<langle>tab\<rangle>\<close>Page 12 b'' becomes ``a  b'', and that becomes ``a b''.
\<close>

theorem cleanText_idempotent_counterexample:
  "cleanText (cleanText (''a\<newline>'' @ [CHR 0x09] @ ''Page 12 b'')) \<noteq>
     cleanText (''a\<newline>'' @ [CHR 0x09] @ ''Page 12 b'')"
  by code_simp

text \<open>
  C6, amended: \<open>cleanText\<close> is idempotent on every text that has no page-number artifact
  (no position where ``Page'', in any case, is followed by white space and a digit),
  whatever its line feeds, tabs and other white space.
\<close>

theorem cleanText_idempotent:
  "\<not> hasPageNumber x \<Longrightarrow> cleanText (cleanText x) = cleanText x"
  by (rule cleanText_idem_clean)

theorem cleanText_idempotent_witness:
  "\<not> hasPageNumber (''  Hello   world\<newline>\<newline>\<newline>'' @ [CHR 0x09] @ ''Page foo '') \<and>
   cleanText (''  Hello   world\<newline>\<newline>\<newline>'' @ [CHR 0x09] @ ''Page foo '') = ''Hello world Page foo'' \<and>
   cleanText ''Hello world Page foo'' = ''Hello world Page foo''"
proof -
  let ?x = "''  Hello   world\<newline>\<newline>\<newline>'' @ [CHR 0x09] @ ''Page foo ''"
  have h: "\<not> hasPageNumber ?x" by code_simp
  have v: "cleanText ?x = ''Hello world Page foo''" by code_simp
  from cleanText_idempotent [OF h] have "cleanText (cleanText ?x) = cleanText ?x" .
  with h v show ?thesis by simp
qed

subsection \<open>C7\<close>

text \<open>
  C7. For every text and every \<open>S > O > 0\<close>, \<open>chunkText\<close> returns chunks whose
  concatenation, the first in full and every further one without its first \<open>O\<close>
  characters, is the text.
\<close>

theorem chunkText_coverage:
  "0 < overlap \<Longrightarrow> overlap < csize \<Longrightarrow>
   map_option (dedupConcat (nat overlap)) (chunkText t csize overlap) = Some t"
proof -
  assume pos: "0 < overlap" and lt: "overlap < csize"
  show ?thesis
  proof (cases "t = []")
    case True
    then have "chunksFrom t csize overlap 0 = []" by (subst chunksFrom.simps) simp
    with True lt show ?thesis by (simp add: chunkText_chunksFrom dedupConcat_def)
  next
    case False
    then have unfold: "chunksFrom t csize overlap 0 =
        substring t 0 (0 + csize) # chunksFrom t csize overlap (0 + (csize - overlap))"
      using lt by (subst chunksFrom.simps) simp
    have rest: "concat (map (drop (nat overlap)) (chunksFrom t csize overlap (0 + (csize - overlap)))) =
        drop (nat csize) t"
      using concat_drop_chunksFrom [OF pos lt, of "0 + (csize - overlap)" t] pos lt by simp
    have first: "substring t 0 (0 + csize) = take (nat csize) t"
      using pos lt substring_nonneg [of 0 csize t] by simp
    show ?thesis
      using lt by (simp add: chunkText_chunksFrom dedupConcat_def unfold rest first del: add_0)
  qed
qed

theorem chunkText_coverage_witness:
  "(0::int) < 1 \<and> (1::int) < 4 \<and>
   chunkText ''abcdefghij'' 4 1 = Some [''abcd'', ''defg'', ''ghij'', ''j''] \<and>
   dedupConcat (nat 1) [''abcd'', ''defg'', ''ghij'', ''j''] = ''abcdefghij''"
  using chunkText_coverage [of 1 4 "''abcdefghij''"]
  by (simp add: chunkText_example)

subsection \<open>C8\<close>

text \<open>
  C8. The claim: \<open>extractTextFromFile\<close> picks the decoder by the file's extension compared
  without regard to case against ``pdf'', ``docx'' and ``txt'', and for any other
  extension fails with an error that names that exact extension. The error does not name
  the extension as the file has it: the extension is put into lower case before it is
  compared and before it is reported. For ``setup.EXE'' the message is
  ``Unsupported file type: exe'', and ``EXE'' occurs nowhere in it.
\<close>

theorem extractTextFromFile_exact_extension_counterexample:
  "extractTextFromFile sampleLibs (sampleFile ''setup.EXE'') =
     Inl (Error ''Unsupported file type: exe'') \<and>
   \<not> includesStr ''Unsupported file type: exe'' ''EXE''"
  by code_simp

text \<open>
  C8, amended: \<open>extractTextFromFile\<close> picks the decoder by the file's extension (the part of
  the name after its last dot, or the whole name when it has no dot) in lower case: an
  extension that is ``pdf'', ``docx'' or ``txt'' up to case runs the PDF, the DOCX or the
  text decoder, so ``PDF'', ``pdf'' and ``Pdf'' run the same one; any other extension
  fails with the error ``Unsupported file type: '' followed by that extension in lower
  case, whatever the libraries would have made of the bytes.
\<close>

theorem extractTextFromFile_dispatch:
  assumes "fileName f = base @ ''.'' @ ext \<or> fileName f = ext" and "CHR ''.'' \<notin> set ext"
  shows "(toLowerCase ext = ''pdf'' \<longrightarrow> extractTextFromFile l f = extractTextFromPDF l f) \<and>
         (toLowerCase ext = ''docx'' \<longrightarrow> extractTextFromFile l f = extractTextFromDocx l f) \<and>
         (toLowerCase ext = ''txt'' \<longrightarrow> extractTextFromFile l f = extractTextFromTxt l f) \<and>
         (toLowerCase ext \<notin> {''pdf'', ''docx'', ''txt''} \<longrightarrow>
            extractTextFromFile l f = Inl (Error (''Unsupported file type: '' @ toLowerCase ext)))"
proof -
  from assms have "fileExtension (fileName f) = Some (toLowerCase ext)"
    using fileExtension_dot [of ext base] fileExtension_no_dot [of ext] by auto
  then show ?thesis by (simp add: extractTextFromFile_def)
qed

theorem extractTextFromFile_dispatch_witness:
  "(toLowerCase ''PDF'' = ''pdf'' \<and> toLowerCase ''pdf'' = ''pdf'' \<and> toLowerCase ''Pdf'' = ''pdf'') \<and>
   extractTextFromFile sampleLibs (sampleFile ''report.PDF'') =
     extractTextFromPDF sampleLibs (sampleFile ''report.PDF'') \<and>
   extractTextFromFile sampleLibs (sampleFile ''report.pdf'') =
     extractTextFromPDF sampleLibs (sampleFile ''report.pdf'') \<and>
   extractTextFromFile sampleLibs (sampleFile ''report.Pdf'') =
     extractTextFromPDF sampleLibs (sampleFile ''report.Pdf'') \<and>
   extractTextFromFile sampleLibs (sampleFile ''letter.DocX'') =
     extractTextFromDocx sampleLibs (sampleFile ''letter.DocX'') \<and>
   extractTextFromFile sampleLibs (sampleFile ''notes.v2.txt'') =
     extractTextFromTxt sampleLibs (sampleFile ''notes.v2.txt'') \<and>
   toLowerCase ''EXE'' \<notin> {''pdf'', ''docx'', ''txt''} \<and>
   extractTextFromFile sampleLibs (sampleFile ''setup.EXE'') =
     Inl (Error ''Unsupported file type: exe'') \<and>
   toLowerCase ''Makefile'' \<notin> {''pdf'', ''docx'', ''txt''} \<and>
   extractTextFromFile sampleLibs (sampleFile ''Makefile'') =
     Inl (Error ''Unsupported file type: makefile'')"
proof -
  have low: "toLowerCase ''PDF'' = ''pdf''" "toLowerCase ''pdf'' = ''pdf''"
    "toLowerCase ''Pdf'' = ''pdf''" "toLowerCase ''DocX'' = ''docx''"
    "toLowerCase ''txt'' = ''txt''" "toLowerCase ''EXE'' = ''exe''"
    "toLowerCase ''Makefile'' = ''makefile''"
    by code_simp+
  have nd: "CHR ''.'' \<notin> set ''PDF''" "CHR ''.'' \<notin> set ''pdf''" "CHR ''.'' \<notin> set ''Pdf''"
    "CHR ''.'' \<notin> set ''DocX''" "CHR ''.'' \<notin> set ''txt''" "CHR ''.'' \<notin> set ''EXE''"
    "CHR ''.'' \<notin> set ''Makefile''"
    by simp_all
  have n: "fileName (sampleFile ''report.PDF'') = ''report'' @ ''.'' @ ''PDF'' \<or>
      fileName (sampleFile ''report.PDF'') = ''PDF''"
    "fileName (sampleFile ''report.pdf'') = ''report'' @ ''.'' @ ''pdf'' \<or>
      fileName (sampleFile ''report.pdf'') = ''pdf''"
    "fileName (sampleFile ''report.Pdf'') = ''report'' @ ''.'' @ ''Pdf'' \<or>
      fileName (sampleFile ''report.Pdf'') = ''Pdf''"
    "fileName (sampleFile ''letter.DocX'') = ''letter'' @ ''.'' @ ''DocX'' \<or>
      fileName (sampleFile ''letter.DocX'') = ''DocX''"
    "fileName (sampleFile ''notes.v2.txt'') = ''notes.v2'' @ ''.'' @ ''txt'' \<or>
      fileName (sampleFile ''notes.v2.txt'') = ''txt''"
    "fileName (sampleFile ''setup.EXE'') = ''setup'' @ ''.'' @ ''EXE'' \<or>
      fileName (sampleFile ''setup.EXE'') = ''EXE''"
    "fileName (sampleFile ''Makefile'') = [] @ ''.'' @ ''Makefile'' \<or>
      fileName (sampleFile ''Makefile'') = ''Makefile''"
    by (simp_all add: sampleFile_def)
  show ?thesis
    using extractTextFromFile_dispatch [OF n(1) nd(1), of sampleLibs]
      extractTextFromFile_dispatch [OF n(2) nd(2), of sampleLibs]
      extractTextFromFile_dispatch [OF n(3) nd(3), of sampleLibs]
      extractTextFromFile_dispatch [OF n(4) nd(4), of sampleLibs]
      extractTextFromFile_dispatch [OF n(5) nd(5), of sampleLibs]
      extractTextFromFile_dispatch [OF n(6) nd(6), of sampleLibs]
      extractTextFromFile_dispatch [OF n(7) nd(7), of sampleLibs]
    by (simp add: low)
qed

subsection \<open>C9\<close>

text \<open>
  C9. The extension \<open>extractTextFromFile\<close> works with is the part of the file name after its
  last dot, in lower case; for a name without any dot it is the whole name in lower case,
  so a file named ``pdf'' goes to the PDF decoder and is not rejected.
\<close>

theorem fileExtension_last_segment:
  "(CHR ''.'' \<notin> set ext \<longrightarrow> fileExtension (base @ ''.'' @ ext) = Some (toLowerCase ext)) \<and>
   (CHR ''.'' \<notin> set name \<longrightarrow> fileExtension name = Some (toLowerCase name)) \<and>
   (fileName f = ''pdf'' \<longrightarrow> extractTextFromFile l f = extractTextFromPDF l f)"
proof -
  have "fileExtension ''pdf'' = Some ''pdf''"
    by code_simp
  then show ?thesis
    by (simp add: fileExtension_dot fileExtension_no_dot extractTextFromFile_def)
qed

theorem fileExtension_last_segment_witness:
  "CHR ''.'' \<notin> set ''GZ'' \<and> fileExtension (''archive.tar'' @ ''.'' @ ''GZ'') = Some ''gz'' \<and>
   CHR ''.'' \<notin> set ''README'' \<and> fileExtension ''README'' = Some ''readme'' \<and>
   fileName (sampleFile ''pdf'') = ''pdf'' \<and>
   extractTextFromFile sampleLibs (sampleFile ''pdf'') = Inr ''Hello world  foo''"
proof -
  have pdf: "extractTextFromPDF sampleLibs (sampleFile ''pdf'') = Inr ''Hello world  foo''"
    by code_simp
  have low: "toLowerCase ''GZ'' = ''gz''" "toLowerCase ''README'' = ''readme''"
    by code_simp+
  have fname: "fileName (sampleFile ''pdf'') = ''pdf''"
    by (simp add: sampleFile_def)
  show ?thesis
    using fileExtension_last_segment [of "''GZ''" "''archive.tar''" "''README''" "sampleFile ''pdf''" sampleLibs]
    by (simp add: low pdf fname)
qed

subsection \<open>C10\<close>

text \<open>
  C10. For every text and every \<open>S > O > 0\<close>, \<open>chunkText\<close> returns, every chunk is non-empty
  and at most \<open>S\<close> long, and the \<open>i\<close>-th chunk (from 0) is the substring of the text that
  starts at offset \<open>i * (S - O)\<close> and runs for \<open>S\<close> characters or to the end of the text.
\<close>

theorem chunkText_chunks:
  "0 < overlap \<Longrightarrow> overlap < csize \<Longrightarrow>
   \<exists>chunks. chunkText t csize overlap = Some chunks \<and>
     (\<forall>i < length chunks.
        chunks ! i \<noteq> [] \<and> length (chunks ! i) \<le> nat csize \<and>
        chunks ! i = take (nat csize) (drop (i * nat (csize - overlap)) t))"
proof -
  assume pos: "0 < overlap" and lt: "overlap < csize"
  let ?cs = "chunksFrom t csize overlap 0"
  have "\<forall>i < length ?cs. ?cs ! i \<noteq> [] \<and> length (?cs ! i) \<le> nat csize \<and>
        ?cs ! i = take (nat csize) (drop (i * nat (csize - overlap)) t)"
  proof (intro allI impI)
    fix i assume i: "i < length ?cs"
    then have "?cs ! i \<in> set ?cs" by simp
    then have b: "?cs ! i \<noteq> [] \<and> length (?cs ! i) \<le> nat csize"
      using chunksFrom_bounds [OF lt, of 0 "?cs ! i" t] pos lt by simp
    have "0 \<le> int i * (csize - overlap)" using lt by simp
    moreover have "nat (int i * (csize - overlap)) = i * nat (csize - overlap)"
      using lt by (simp add: nat_mult_distrib)
    ultimately have "?cs ! i = take (nat csize) (drop (i * nat (csize - overlap)) t)"
      using nth_chunksFrom [OF lt i] substring_nonneg [of "int i * (csize - overlap)" csize t] pos lt
      by simp
    with b show "?cs ! i \<noteq> [] \<and> length (?cs ! i) \<le> nat csize \<and>
        ?cs ! i = take (nat csize) (drop (i * nat (csize - overlap)) t)" by simp
  qed
  then show ?thesis unfolding chunkText_chunksFrom [OF lt] by blast
qed

theorem chunkText_chunks_witness:
  "(0::int) < 1 \<and> (1::int) < 4 \<and>
   (\<exists>chunks. chunkText ''abcdefghij'' 4 1 = Some chunks \<and>
     (\<forall>i < length chunks.
        chunks ! i \<noteq> [] \<and> length (chunks ! i) \<le> nat 4 \<and>
        chunks ! i = take (nat 4) (drop (i * nat (4 - 1)) ''abcdefghij'')))"
  using chunkText_chunks [of 1 4 "''abcdefghij''"] by simp

end
